theory Spec2Isabelle
  imports Main
begin

section \<open>Data model of package ccx\<close>

text \<open>
  The Go package keeps its nodes (\<open>*Ctx\<close>) as heap objects that are shared by pointer,
  a process-wide registry from ids to nodes, and parameter maps (\<open>map[string]any\<close>) that
  are reference values. The embedding therefore passes an explicit world around:
  a heap of nodes, a heap of parameter maps, the registry, and the part of the
  standard library's cancellation state the nodes depend on.

  A pointer \<open>*Ctx\<close> is \<open>None\<close> for \<open>nil\<close> and \<open>Some a\<close> for the object at address \<open>a\<close>.
  The mutex \<open>mu\<close> has no counterpart: every modelled call runs alone, from its first
  statement to its last.
\<close>

datatype val = VString string | VInt int | VBool bool

datatype error = Error string

datatype panic = NilPointerDereference | CloseOfClosedChannel | AssignmentToNilMap

text \<open>What a call does: it returns, it panics, or the model's fuel ran out while a
  loop or recursion of the source was still going.\<close>

datatype 'a outcome = Returns 'a | Panics panic | OutOfFuel

type_synonym ptr = "nat option"

type_synonym params = "string \<rightharpoonup> val"

text \<open>\<open>type AdjustFn func(params map[string]any)\<close>: a function value may be \<open>nil\<close>;
  otherwise it is taken to rewrite the contents of the map it is handed.\<close>

type_synonym AdjustFn = "(params \<Rightarrow> params) option"

record Intent =
  Name :: string
  Params :: "nat option"

text \<open>\<open>time.Time\<close> is an instant on one time line, counted from the zero time, so that
  \<open>IsZero\<close> is equality with 0 and \<open>After\<close> is the order of the integers.\<close>

record Constraints =
  Deadline :: int

definition IsZero :: "int \<Rightarrow> bool" where
  "IsZero t = (t = 0)"

definition After :: "int \<Rightarrow> int \<Rightarrow> bool" where
  "After t u = (t > u)"

text \<open>
  Modelled from the spec: the completion-signal primitive (Go's \<open>context\<close> package) is an
  external collaborator, "a cancellable/deadline-aware signal each node derives from its
  parent's; automatically cascades cancellation downward when the parent's underlying
  signal fires". A derived context names the cancel function it was created with and
  the context it was derived from; its signal has fired when its own cancel function
  was called, its deadline has been reached, or its parent's signal has fired.
\<close>

datatype "context" =
    BackgroundCtx
  | TODOCtx
  | CancelCtx nat "context"
  | DeadlineCtx nat int "context"

record Ctx =
  Context :: "context"
  idC :: string
  parentID :: string
  intent :: Intent
  cons :: Constraints
  state :: string
  doneCh :: bool
  err :: "error option"
  children :: "string list"

text \<open>\<open>doneCh\<close> holds whether the channel has been closed. \<open>idC\<close> is the field \<open>id\<close>.\<close>

record world =
  nodes :: "Ctx list"
  maps :: "params list"
  reg :: "string \<rightharpoonup> nat"
  cancelled :: "nat set"
  nextCancel :: nat
  now :: int

definition init_world :: world where
  "init_world = \<lparr>nodes = [], maps = [], reg = Map.empty, cancelled = {}, nextCancel = 0, now = 0\<rparr>"

subsection \<open>The external completion signal\<close>

text \<open>Modelled from the spec: whether the signal of a context of the external primitive
  has fired, with the cascade from the parent ("cancelling or expiring the parent's
  underlying signal must automatically and promptly cancel every descendant's underlying
  signal"). The root contexts of \<open>context.Background()\<close> and \<open>context.TODO()\<close> never
  fire.\<close>

fun ctx_done :: "world \<Rightarrow> context \<Rightarrow> bool" where
  "ctx_done w BackgroundCtx = False"
| "ctx_done w TODOCtx = False"
| "ctx_done w (CancelCtx k p) = (k \<in> cancelled w \<or> ctx_done w p)"
| "ctx_done w (DeadlineCtx k d p) = (k \<in> cancelled w \<or> d \<le> now w \<or> ctx_done w p)"

text \<open>Modelled from the spec: the two derivations of the external primitive, "if the
  effective deadline is unset, derive a plain cancellable signal; otherwise derive a
  deadline-bound one". Each hands back the derived context and its release handle.\<close>

definition context_WithCancel :: "world \<Rightarrow> context \<Rightarrow> world \<times> context \<times> nat" where
  "context_WithCancel w p =
     (w\<lparr>nextCancel := Suc (nextCancel w)\<rparr>, CancelCtx (nextCancel w) p, nextCancel w)"

definition context_WithDeadline :: "world \<Rightarrow> context \<Rightarrow> int \<Rightarrow> world \<times> context \<times> nat" where
  "context_WithDeadline w p d =
     (w\<lparr>nextCancel := Suc (nextCancel w)\<rparr>, DeadlineCtx (nextCancel w) d p, nextCancel w)"

text \<open>Modelled from the spec: calling a release handle (\<open>context.CancelFunc\<close>), and the
  clock reaching \<open>t\<close>. Both belong to the external primitive and touch its state only.\<close>

definition cancel :: "world \<Rightarrow> nat \<Rightarrow> world" where
  "cancel w k = w\<lparr>cancelled := insert k (cancelled w)\<rparr>"

definition clock :: "world \<Rightarrow> int \<Rightarrow> world" where
  "clock w t = w\<lparr>now := t\<rparr>"

subsection \<open>Dereferencing\<close>

text \<open>Every field access and method call dereferences its pointer, and panics on
  \<open>nil\<close>. An address beyond the heap stands for no object of the program (Go has no
  dangling pointers) and is treated like \<open>nil\<close>.\<close>

definition with_node :: "world \<Rightarrow> ptr \<Rightarrow> (nat \<Rightarrow> Ctx \<Rightarrow> 'a outcome) \<Rightarrow> 'a outcome" where
  "with_node w p f =
     (case p of
        None \<Rightarrow> Panics NilPointerDereference
      | Some a \<Rightarrow> if a < length (nodes w) then f a (nodes w ! a) else Panics NilPointerDereference)"

definition store :: "world \<Rightarrow> nat \<Rightarrow> Ctx \<Rightarrow> world" where
  "store w a n = w\<lparr>nodes := (nodes w)[a := n]\<rparr>"

section \<open>Construction, accessors, lifecycle\<close>

definition register :: "world \<Rightarrow> nat \<Rightarrow> world" where
  "register w a = w\<lparr>reg := (reg w)(idC (nodes w ! a) \<mapsto> a)\<rparr>"

definition get :: "world \<Rightarrow> string \<Rightarrow> nat option" where
  "get w i = reg w i"

text \<open>\<open>wrap\<close> calls \<open>newID()\<close>, which reads 16 random bytes; the id it produced is the
  argument \<open>nid\<close>.\<close>

definition wrap :: "world \<Rightarrow> string \<Rightarrow> context \<Rightarrow> Intent \<Rightarrow> Constraints \<Rightarrow> world \<times> nat" where
  "wrap w nid base i cs =
     (let c = \<lparr>Context = base, idC = nid, parentID = [], intent = i, cons = cs,
               state = ''active'', doneCh = False, err = None, children = []\<rparr>;
          a = length (nodes w);
          w1 = w\<lparr>nodes := nodes w @ [c]\<rparr>
      in (register w1 a, a))"

definition Background :: "world \<Rightarrow> string \<Rightarrow> world \<times> ptr" where
  "Background w nid =
     (case wrap w nid BackgroundCtx \<lparr>Name = [], Params = None\<rparr> \<lparr>Deadline = 0\<rparr> of
        (w1, a) \<Rightarrow> (w1, Some a))"

definition TODO :: "world \<Rightarrow> string \<Rightarrow> world \<times> ptr" where
  "TODO w nid =
     (case wrap w nid TODOCtx \<lparr>Name = [], Params = None\<rparr> \<lparr>Deadline = 0\<rparr> of
        (w1, a) \<Rightarrow> (w1, Some a))"

definition ID :: "world \<Rightarrow> ptr \<Rightarrow> string outcome" where
  "ID w c = with_node w c (\<lambda>a n. Returns (idC n))"

definition ParentID :: "world \<Rightarrow> ptr \<Rightarrow> string outcome" where
  "ParentID w c = with_node w c (\<lambda>a n. Returns (parentID n))"

definition IntentOf :: "world \<Rightarrow> ptr \<Rightarrow> Intent outcome" where
  "IntentOf w c = with_node w c (\<lambda>a n. Returns (intent n))"

definition ConstraintsOf :: "world \<Rightarrow> ptr \<Rightarrow> Constraints outcome" where
  "ConstraintsOf w c = with_node w c (\<lambda>a n. Returns (cons n))"

definition State :: "world \<Rightarrow> ptr \<Rightarrow> string outcome" where
  "State w c = with_node w c (\<lambda>a n. Returns (state n))"

definition DoneChan :: "world \<Rightarrow> ptr \<Rightarrow> bool outcome" where
  "DoneChan w c = with_node w c (\<lambda>a n. Returns (doneCh n))"

definition ErrState :: "world \<Rightarrow> ptr \<Rightarrow> error option outcome" where
  "ErrState w c = with_node w c (\<lambda>a n. Returns (err n))"

text \<open>\<open>Done\<close> is the method \<open>*Ctx\<close> inherits from the embedded \<open>context.Context\<close>: the
  underlying completion signal of the node.\<close>

definition Done :: "world \<Rightarrow> ptr \<Rightarrow> bool outcome" where
  "Done w c = with_node w c (\<lambda>a n. Returns (ctx_done w (Context n)))"

definition Fulfill :: "world \<Rightarrow> ptr \<Rightarrow> world outcome" where
  "Fulfill w c = with_node w c (\<lambda>a n.
     if state n = ''active'' then
       (if doneCh n then Panics CloseOfClosedChannel
        else Returns (store w a (n\<lparr>state := ''done'', doneCh := True\<rparr>)))
     else Returns w)"

definition Abort :: "world \<Rightarrow> ptr \<Rightarrow> error option \<Rightarrow> world outcome" where
  "Abort w c e = with_node w c (\<lambda>a n.
     if state n = ''active'' then
       (if doneCh n then Panics CloseOfClosedChannel
        else Returns (store w a (n\<lparr>state := ''aborted'', err := e, doneCh := True\<rparr>)))
     else Returns w)"

section \<open>Lineage\<close>

definition Parent :: "world \<Rightarrow> ptr \<Rightarrow> ptr outcome" where
  "Parent w c = with_node w c (\<lambda>a n. Returns (get w (parentID n)))"

text \<open>The loop of \<open>Root\<close> has no bound in the source; one unit of fuel is one test of
  its condition.\<close>

fun Root :: "nat \<Rightarrow> world \<Rightarrow> ptr \<Rightarrow> ptr outcome" where
  "Root 0 w cur = OutOfFuel"
| "Root (Suc k) w cur =
     (case ParentID w cur of
        Returns pid \<Rightarrow>
          if pid \<noteq> [] then
            (case Parent w cur of
               Returns p \<Rightarrow> Root k w p
             | Panics x \<Rightarrow> Panics x
             | OutOfFuel \<Rightarrow> OutOfFuel)
          else Returns cur
      | Panics x \<Rightarrow> Panics x
      | OutOfFuel \<Rightarrow> OutOfFuel)"

definition Children :: "world \<Rightarrow> ptr \<Rightarrow> ptr list outcome" where
  "Children w c = with_node w c (\<lambda>a n.
     Returns (map Some (List.map_filter (get w) (children n))))"

section \<open>Derivation and the deadline clamp\<close>

definition clampChild :: "Constraints \<Rightarrow> Constraints \<Rightarrow> Constraints" where
  "clampChild p c =
     (if \<not> IsZero (Deadline p) \<and> (IsZero (Deadline c) \<or> After (Deadline c) (Deadline p))
      then c\<lparr>Deadline := Deadline p\<rparr> else c)"

definition WithIntent ::
  "world \<Rightarrow> string \<Rightarrow> ptr \<Rightarrow> Intent \<Rightarrow> Constraints \<Rightarrow> (world \<times> ptr \<times> nat) outcome" where
  "WithIntent w nid parent i cs = with_node w parent (\<lambda>pa p.
     let cs1 = clampChild (cons p) cs;
         (w1, base, cancelFn) =
            (if IsZero (Deadline cs1) then context_WithCancel w (Context p)
             else context_WithDeadline w (Context p) (Deadline cs1));
         (w2, ca) = wrap w1 nid base i cs1;
         w3 = store w2 ca ((nodes w2 ! ca)\<lparr>parentID := idC p\<rparr>);
         w4 = store w3 pa ((nodes w3 ! pa)\<lparr>children := children (nodes w3 ! pa) @ [idC (nodes w3 ! ca)]\<rparr>)
     in Returns (w4, Some ca, cancelFn))"

section \<open>Scoped controls\<close>

definition ScopeNode :: int where "ScopeNode = 0"
definition ScopeSubtree :: int where "ScopeSubtree = 1"
definition ScopeRoot :: int where "ScopeRoot = 2"

text \<open>The recursion of \<open>abortRecursive\<close> and \<open>adjustRecursive\<close> follows the registry and
  has no bound in the source; one unit of fuel is one level of the recursion.
  \<open>abortEach\<close> and \<open>adjustEach\<close> are the \<open>for ... range c.Children()\<close> loops.\<close>

fun abortRecursive :: "nat \<Rightarrow> world \<Rightarrow> ptr \<Rightarrow> error option \<Rightarrow> world outcome"
  and abortEach :: "nat \<Rightarrow> world \<Rightarrow> ptr list \<Rightarrow> error option \<Rightarrow> world outcome" where
  "abortRecursive 0 w c reason = OutOfFuel"
| "abortRecursive (Suc k) w c reason =
     (case State w c of
        Returns s \<Rightarrow>
          (case (if s = ''active'' then Abort w c reason else Returns w) of
             Returns w1 \<Rightarrow>
               (case Children w1 c of
                  Returns chs \<Rightarrow> abortEach k w1 chs reason
                | Panics x \<Rightarrow> Panics x
                | OutOfFuel \<Rightarrow> OutOfFuel)
           | Panics x \<Rightarrow> Panics x
           | OutOfFuel \<Rightarrow> OutOfFuel)
      | Panics x \<Rightarrow> Panics x
      | OutOfFuel \<Rightarrow> OutOfFuel)"
| "abortEach k w [] reason = Returns w"
| "abortEach k w (ch # chs) reason =
     (case abortRecursive k w ch reason of
        Returns w1 \<Rightarrow> abortEach k w1 chs reason
      | Panics x \<Rightarrow> Panics x
      | OutOfFuel \<Rightarrow> OutOfFuel)"

definition SendCancel :: "nat \<Rightarrow> world \<Rightarrow> ptr \<Rightarrow> int \<Rightarrow> error option \<Rightarrow> world outcome" where
  "SendCancel fuel w c scope reason =
     (if scope = ScopeNode then Abort w c reason
      else if scope = ScopeSubtree then abortRecursive fuel w c reason
      else if scope = ScopeRoot then
        (case Root fuel w c of
           Returns r \<Rightarrow> abortRecursive fuel w r reason
         | Panics x \<Rightarrow> Panics x
         | OutOfFuel \<Rightarrow> OutOfFuel)
      else Returns w)"

definition applyAdjust :: "world \<Rightarrow> ptr \<Rightarrow> AdjustFn \<Rightarrow> world outcome" where
  "applyAdjust w c fn = with_node w c (\<lambda>a n.
     let (w1, m) =
           (case Params (intent n) of
              None \<Rightarrow>
                (store (w\<lparr>maps := maps w @ [Map.empty]\<rparr>) a
                   (n\<lparr>intent := (intent n)\<lparr>Params := Some (length (maps w))\<rparr>\<rparr>),
                 length (maps w))
            | Some m0 \<Rightarrow> (w, m0))
     in (case fn of
           None \<Rightarrow> Panics NilPointerDereference
         | Some f \<Rightarrow> Returns (w1\<lparr>maps := (maps w1)[m := f (maps w1 ! m)]\<rparr>)))"

fun adjustRecursive :: "nat \<Rightarrow> world \<Rightarrow> ptr \<Rightarrow> AdjustFn \<Rightarrow> world outcome"
  and adjustEach :: "nat \<Rightarrow> world \<Rightarrow> ptr list \<Rightarrow> AdjustFn \<Rightarrow> world outcome" where
  "adjustRecursive 0 w c fn = OutOfFuel"
| "adjustRecursive (Suc k) w c fn =
     (case applyAdjust w c fn of
        Returns w1 \<Rightarrow>
          (case Children w1 c of
             Returns chs \<Rightarrow> adjustEach k w1 chs fn
           | Panics x \<Rightarrow> Panics x
           | OutOfFuel \<Rightarrow> OutOfFuel)
      | Panics x \<Rightarrow> Panics x
      | OutOfFuel \<Rightarrow> OutOfFuel)"
| "adjustEach k w [] fn = Returns w"
| "adjustEach k w (ch # chs) fn =
     (case adjustRecursive k w ch fn of
        Returns w1 \<Rightarrow> adjustEach k w1 chs fn
      | Panics x \<Rightarrow> Panics x
      | OutOfFuel \<Rightarrow> OutOfFuel)"

definition SendAdjust :: "nat \<Rightarrow> world \<Rightarrow> ptr \<Rightarrow> int \<Rightarrow> AdjustFn \<Rightarrow> world outcome" where
  "SendAdjust fuel w c scope fn =
     (if scope = ScopeNode then applyAdjust w c fn
      else if scope = ScopeSubtree then adjustRecursive fuel w c fn
      else if scope = ScopeRoot then
        (case Root fuel w c of
           Returns r \<Rightarrow> adjustRecursive fuel w r fn
         | Panics x \<Rightarrow> Panics x
         | OutOfFuel \<Rightarrow> OutOfFuel)
      else Returns w)"

section \<open>Wait helper\<close>

text \<open>
  \<open>WaitAll\<close> blocks, so its model says what the call does in a given world: it returns
  an error value, it panics, or it is blocked in the \<open>select\<close> of some node, with the
  nodes not yet passed (the call goes on from there once the world has changed).
  The caller's \<open>ctx\<close> is an interface value, of which the call sees whether \<open>Done()\<close>
  is closed and what \<open>Err()\<close> returns. When both cases of a \<open>select\<close> are ready Go
  picks one at random: \<open>pick 0\<close> says whether the first \<open>select\<close> takes the node's
  case, \<open>pick 1\<close> the second, and so on.
\<close>

record callerCtx =
  ctxDone :: bool
  ctxErr :: "error option"

datatype wait = WaitReturns "error option" | WaitPanics panic | WaitOutOfFuel | WaitBlocks "ptr list"

fun WaitAll :: "world \<Rightarrow> callerCtx option \<Rightarrow> (nat \<Rightarrow> bool) \<Rightarrow> ptr list \<Rightarrow> wait" where
  "WaitAll w ctx pick [] = WaitReturns None"
| "WaitAll w ctx pick (n # ns) =
     (case DoneChan w n of
        Returns closed \<Rightarrow>
          (case ctx of
             None \<Rightarrow> WaitPanics NilPointerDereference
           | Some cc \<Rightarrow>
               if closed \<and> (\<not> ctxDone cc \<or> pick 0) then
                 (case ErrState w n of
                    Returns (Some e) \<Rightarrow> WaitReturns (Some e)
                  | Returns None \<Rightarrow> WaitAll w ctx (\<lambda>i. pick (Suc i)) ns
                  | Panics x \<Rightarrow> WaitPanics x
                  | OutOfFuel \<Rightarrow> WaitOutOfFuel)
               else if ctxDone cc then WaitReturns (ctxErr cc)
               else WaitBlocks (n # ns))
      | Panics x \<Rightarrow> WaitPanics x
      | OutOfFuel \<Rightarrow> WaitOutOfFuel)"

section \<open>Policy adapter: the read-only view\<close>

datatype policyNode = PolicyNode ptr

fun policyNode_ID :: "world \<Rightarrow> policyNode \<Rightarrow> string outcome" where
  "policyNode_ID w (PolicyNode n) = ID w n"

fun policyNode_Name :: "world \<Rightarrow> policyNode \<Rightarrow> string outcome" where
  "policyNode_Name w (PolicyNode n) =
     (case IntentOf w n of Returns i \<Rightarrow> Returns (Name i) | Panics x \<Rightarrow> Panics x | OutOfFuel \<Rightarrow> OutOfFuel)"

text \<open>\<open>Params\<close> returns the map value of the intent, that is a reference to the map.\<close>

fun policyNode_Params :: "world \<Rightarrow> policyNode \<Rightarrow> nat option outcome" where
  "policyNode_Params w (PolicyNode n) =
     (case IntentOf w n of Returns i \<Rightarrow> Returns (Params i) | Panics x \<Rightarrow> Panics x | OutOfFuel \<Rightarrow> OutOfFuel)"

fun policyNode_Parent :: "world \<Rightarrow> policyNode \<Rightarrow> policyNode option outcome" where
  "policyNode_Parent w (PolicyNode n) =
     (case Parent w n of
        Returns par \<Rightarrow> if par \<noteq> None then Returns (Some (PolicyNode par)) else Returns None
      | Panics x \<Rightarrow> Panics x
      | OutOfFuel \<Rightarrow> OutOfFuel)"

fun policyNode_Root :: "nat \<Rightarrow> world \<Rightarrow> policyNode \<Rightarrow> policyNode outcome" where
  "policyNode_Root fuel w (PolicyNode n) =
     (case Root fuel w n of
        Returns r \<Rightarrow> Returns (PolicyNode r)
      | Panics x \<Rightarrow> Panics x
      | OutOfFuel \<Rightarrow> OutOfFuel)"

section \<open>What callers do with the values they are handed\<close>

text \<open>Go's map operations on a map value: the read \<open>m[k]\<close> (a nil map reads as empty)
  and the assignment \<open>m[k] = v\<close> (which panics on a nil map).\<close>

definition map_index :: "world \<Rightarrow> nat option \<Rightarrow> string \<Rightarrow> val option" where
  "map_index w m k = (case m of None \<Rightarrow> None | Some a \<Rightarrow> (maps w ! a) k)"

definition map_assign :: "world \<Rightarrow> nat option \<Rightarrow> string \<Rightarrow> val \<Rightarrow> world outcome" where
  "map_assign w m k v =
     (case m of
        None \<Rightarrow> Panics AssignmentToNilMap
      | Some a \<Rightarrow> Returns (w\<lparr>maps := (maps w)[a := (maps w ! a)(k \<mapsto> v)]\<rparr>))"

text \<open>\<open>c.Intent().Params[k]\<close>: a parameter as observed through the node itself.\<close>

definition param :: "world \<Rightarrow> ptr \<Rightarrow> string \<Rightarrow> val option outcome" where
  "param w c k =
     (case IntentOf w c of
        Returns i \<Rightarrow> Returns (map_index w (Params i) k)
      | Panics x \<Rightarrow> Panics x
      | OutOfFuel \<Rightarrow> OutOfFuel)"

text \<open>The mutator \<open>func(p map[string]any) { p[k] = v }\<close>.\<close>

definition set_key :: "string \<Rightarrow> val \<Rightarrow> AdjustFn" where
  "set_key k v = Some (\<lambda>m. m(k \<mapsto> v))"

text \<open>A sequence of terminal calls on one node.\<close>

datatype terminal = CallFulfill | CallAbort "error option"

fun call :: "world \<Rightarrow> ptr \<Rightarrow> terminal \<Rightarrow> world outcome" where
  "call w c CallFulfill = Fulfill w c"
| "call w c (CallAbort e) = Abort w c e"

fun calls :: "world \<Rightarrow> ptr \<Rightarrow> terminal list \<Rightarrow> world outcome" where
  "calls w c [] = Returns w"
| "calls w c (t # ts) =
     (case call w c t of
        Returns w1 \<Rightarrow> calls w1 c ts
      | Panics x \<Rightarrow> Panics x
      | OutOfFuel \<Rightarrow> OutOfFuel)"

text \<open>\<open>map[string]any{}\<close>: a new, empty map.\<close>

definition new_map :: "world \<Rightarrow> world \<times> nat option" where
  "new_map w = (w\<lparr>maps := maps w @ [Map.empty]\<rparr>, Some (length (maps w)))"

text \<open>A chain of derivations: each request derives a child of the node derived by the
  request before it, the first one a child of \<open>p\<close>.\<close>

fun chain :: "world \<Rightarrow> ptr \<Rightarrow> (string \<times> Intent \<times> Constraints) list \<Rightarrow> (world \<times> ptr list) outcome" where
  "chain w p [] = Returns (w, [])"
| "chain w p ((nid, i, cs) # rest) =
     (case WithIntent w nid p i cs of
        Returns (w1, ch, fn) \<Rightarrow>
          (case chain w1 ch rest of
             Returns (w2, chs) \<Rightarrow> Returns (w2, ch # chs)
           | Panics x \<Rightarrow> Panics x
           | OutOfFuel \<Rightarrow> OutOfFuel)
      | Panics x \<Rightarrow> Panics x
      | OutOfFuel \<Rightarrow> OutOfFuel)"

text \<open>Any sequence of calls of the package, of release handles, and of clock ticks.\<close>

datatype api =
    NewBackground string
  | NewTODO string
  | Derive string ptr Intent Constraints
  | DoFulfill ptr
  | DoAbort ptr "error option"
  | DoSendCancel nat ptr int "error option"
  | DoSendAdjust nat ptr int AdjustFn
  | Release nat
  | Tick int

fun step :: "world \<Rightarrow> api \<Rightarrow> world outcome" where
  "step w (NewBackground nid) = Returns (fst (Background w nid))"
| "step w (NewTODO nid) = Returns (fst (TODO w nid))"
| "step w (Derive nid p i cs) =
     (case WithIntent w nid p i cs of
        Returns (w1, ch, fn) \<Rightarrow> Returns w1
      | Panics x \<Rightarrow> Panics x
      | OutOfFuel \<Rightarrow> OutOfFuel)"
| "step w (DoFulfill c) = Fulfill w c"
| "step w (DoAbort c e) = Abort w c e"
| "step w (DoSendCancel fuel c scope reason) = SendCancel fuel w c scope reason"
| "step w (DoSendAdjust fuel c scope fn) = SendAdjust fuel w c scope fn"
| "step w (Release k) = Returns (cancel w k)"
| "step w (Tick t) = Returns (clock w t)"

fun run :: "world \<Rightarrow> api list \<Rightarrow> world outcome" where
  "run w [] = Returns w"
| "run w (x # xs) =
     (case step w x of
        Returns w1 \<Rightarrow> run w1 xs
      | Panics e \<Rightarrow> Panics e
      | OutOfFuel \<Rightarrow> OutOfFuel)"

text \<open>The world a run ended in (the empty world when it did not return).\<close>

fun final :: "world outcome \<Rightarrow> world" where
  "final (Returns w) = w"
| "final (Panics x) = init_world"
| "final OutOfFuel = init_world"

section \<open>Invariant of a node, and the node a derivation creates\<close>

text \<open>The node's own channel is closed exactly when the state has left \<open>active\<close>, and an
  error is recorded only on an aborted node.\<close>

definition consistent :: "Ctx \<Rightarrow> bool" where
  "consistent n = ((doneCh n \<longleftrightarrow> state n \<noteq> ''active'') \<and> (err n = None \<or> state n = ''aborted''))"

definition all_consistent :: "world \<Rightarrow> bool" where
  "all_consistent w = (\<forall>n \<in> set (nodes w). consistent n)"

definition derived :: "world \<Rightarrow> string \<Rightarrow> nat \<Rightarrow> Intent \<Rightarrow> Constraints \<Rightarrow> Ctx" where
  "derived w nid pa i cs =
     (let p = nodes w ! pa; cs1 = clampChild (cons p) cs
      in \<lparr>Context = (if IsZero (Deadline cs1) then CancelCtx (nextCancel w) (Context p)
                      else DeadlineCtx (nextCancel w) (Deadline cs1) (Context p)),
          idC = nid, parentID = idC p, intent = i, cons = cs1,
          state = ''active'', doneCh = False, err = None, children = []\<rparr>)"

text \<open>Params that start empty: a nil map, or a map with no entry.\<close>

definition empty_params :: "world \<Rightarrow> nat option \<Rightarrow> bool" where
  "empty_params w p = (case p of None \<Rightarrow> True | Some m \<Rightarrow> m < length (maps w) \<and> maps w ! m = Map.empty)"

section \<open>Example worlds\<close>

text \<open>
  A root \<open>r\<close> with children \<open>a\<close> (no deadline) and \<open>c\<close> (deadline 5), and \<open>b\<close> below \<open>a\<close>;
  then the release handle of \<open>a\<close> is called and the clock reaches 5.
  The nodes are at addresses 0 (\<open>r\<close>), 1 (\<open>a\<close>), 2 (\<open>b\<close>), 3 (\<open>c\<close>); the release handles
  are 0 (\<open>a\<close>), 1 (\<open>b\<close>), 2 (\<open>c\<close>).
\<close>

definition family :: "api list" where
  "family =
     [NewBackground ''r'',
      Derive ''a'' (Some 0) \<lparr>Name = ''A'', Params = None\<rparr> \<lparr>Deadline = 0\<rparr>,
      Derive ''b'' (Some 1) \<lparr>Name = ''B'', Params = None\<rparr> \<lparr>Deadline = 0\<rparr>,
      Derive ''c'' (Some 0) \<lparr>Name = ''C'', Params = None\<rparr> \<lparr>Deadline = 5\<rparr>]"

definition family_world :: world where
  "family_world = final (run init_world family)"

definition released_world :: world where
  "released_world = final (run init_world (family @ [Release 0, Tick 5]))"

text \<open>The same family after \<open>a.Fulfill()\<close> and \<open>b.Abort(errors.New("boom"))\<close>.\<close>

definition settled_world :: world where
  "settled_world = final (run init_world (family @ [DoFulfill (Some 1), DoAbort (Some 2) (Some (Error ''boom''))]))"

text \<open>A root \<open>r\<close> with a child \<open>a\<close> whose params are a map literal (map 0).\<close>

definition viewed_world :: world where
  "viewed_world =
     final (run (fst (new_map init_world))
       [NewBackground ''r'', Derive ''a'' (Some 0) \<lparr>Name = ''A'', Params = Some 0\<rparr> \<lparr>Deadline = 0\<rparr>])"

definition idle :: callerCtx where
  "idle = \<lparr>ctxDone = False, ctxErr = None\<rparr>"

text \<open>The tree \<open>r\<close>, \<open>a\<close> below \<open>r\<close>, \<open>b\<close> below \<open>a\<close>, built call by call; \<open>a\<close> is derived with
  a map literal for its params (map 0) and \<open>b\<close> with none.\<close>

definition tree1 :: world where
  "tree1 = fst (Background (fst (new_map init_world)) ''r'')"

definition tree2 :: world where
  "tree2 = final (step tree1 (Derive ''a'' (Some 0) \<lparr>Name = ''A'', Params = Some 0\<rparr> \<lparr>Deadline = 0\<rparr>))"

definition tree3 :: world where
  "tree3 = final (step tree2 (Derive ''b'' (Some 1) \<lparr>Name = ''B'', Params = None\<rparr> \<lparr>Deadline = 0\<rparr>))"

text \<open>The root's map is a map of its own: an existing map that is not the map \<open>A\<close> or \<open>B\<close>
  was derived with (a root without a map shares none).\<close>

definition own_map :: "world \<Rightarrow> nat option \<Rightarrow> nat option \<Rightarrow> nat option \<Rightarrow> bool" where
  "own_map w r a b =
     (case r of None \<Rightarrow> True | Some m \<Rightarrow> m < length (maps w) \<and> a \<noteq> Some m \<and> b \<noteq> Some m)"

text \<open>A caller context whose signal has fired, and the two extreme runs of \<open>select\<close>:
  always the node's case when it is ready, always the caller's.\<close>

definition fired :: callerCtx where
  "fired = \<lparr>ctxDone = True, ctxErr = Some (Error ''context canceled'')\<rparr>"

definition node_first :: "nat \<Rightarrow> bool" where
  "node_first i = True"

definition ctx_first :: "nat \<Rightarrow> bool" where
  "ctx_first i = False"

text \<open>The node \<open>a\<close> of the family after \<open>a.Abort(nil)\<close>.\<close>

definition nil_aborted_world :: world where
  "nil_aborted_world = final (Abort family_world (Some 1) None)"

text \<open>
  A root \<open>r\<close> that was adjusted once (\<open>r.SendAdjust(ScopeNode, func(p) {})\<close> gives it map 0),
  a child \<open>a\<close> derived with \<open>Params: r.Intent().Params\<close>, that is with map 0, and a child
  \<open>b\<close> of \<open>a\<close> derived without params. Then a world where \<open>a\<close> has a map literal of its
  own instead (map 1).
\<close>

definition shared_world :: world where
  "shared_world =
     final (run init_world
       [NewBackground ''r'',
        DoSendAdjust 0 (Some 0) ScopeNode (Some id),
        Derive ''a'' (Some 0) \<lparr>Name = ''A'', Params = Some 0\<rparr> \<lparr>Deadline = 0\<rparr>,
        Derive ''b'' (Some 1) \<lparr>Name = ''B'', Params = None\<rparr> \<lparr>Deadline = 0\<rparr>])"

definition adjusted_root :: world where
  "adjusted_root =
     fst (new_map (final (run init_world
       [NewBackground ''r'', DoSendAdjust 0 (Some 0) ScopeNode (Some id)])))"

definition separate2 :: world where
  "separate2 = final (step adjusted_root (Derive ''a'' (Some 0) \<lparr>Name = ''A'', Params = Some 1\<rparr> \<lparr>Deadline = 0\<rparr>))"

definition separate3 :: world where
  "separate3 = final (step separate2 (Derive ''b'' (Some 1) \<lparr>Name = ''B'', Params = None\<rparr> \<lparr>Deadline = 0\<rparr>))"

section \<open>Basic facts\<close>

lemmas exec =
  Background_def TODO_def wrap_def register_def get_def WithIntent_def with_node_def store_def
  clampChild_def IsZero_def After_def context_WithCancel_def context_WithDeadline_def
  cancel_def clock_def Fulfill_def Abort_def State_def ErrState_def DoneChan_def Done_def
  ConstraintsOf_def IntentOf_def Children_def init_world_def new_map_def Let_def

lemma State_Returns:
  "State w c = Returns s \<longleftrightarrow> (\<exists>a. c = Some a \<and> a < length (nodes w) \<and> state (nodes w ! a) = s)"
  by (cases c) (auto simp: State_def with_node_def)

lemma ConstraintsOf_Returns:
  "ConstraintsOf w c = Returns k \<longleftrightarrow> (\<exists>a. c = Some a \<and> a < length (nodes w) \<and> cons (nodes w ! a) = k)"
  by (cases c) (auto simp: ConstraintsOf_def with_node_def)

lemma with_node_cancel: "with_node (cancel w k) c f = with_node w c f"
  by (simp add: with_node_def cancel_def split: option.splits)

lemma with_node_clock: "with_node (clock w t) c f = with_node w c f"
  by (simp add: with_node_def clock_def split: option.splits)

lemma derived_fields [simp]:
  "state (derived w nid pa i cs) = ''active''"
  "doneCh (derived w nid pa i cs) = False"
  "err (derived w nid pa i cs) = None"
  "children (derived w nid pa i cs) = []"
  "intent (derived w nid pa i cs) = i"
  "idC (derived w nid pa i cs) = nid"
  "cons (derived w nid pa i cs) = clampChild (cons (nodes w ! pa)) cs"
  by (simp_all add: derived_def Let_def)

text \<open>What a derivation from an existing parent does to the world.\<close>

lemma WithIntent_Some:
  assumes "pa < length (nodes w)"
  shows "WithIntent w nid (Some pa) i cs =
           Returns (w\<lparr>nodes := (nodes w)[pa := (nodes w ! pa)\<lparr>children := children (nodes w ! pa) @ [nid]\<rparr>]
                              @ [derived w nid pa i cs],
                      reg := (reg w)(nid \<mapsto> length (nodes w)),
                      nextCancel := Suc (nextCancel w)\<rparr>,
                    Some (length (nodes w)), nextCancel w)"
  using assms
  by (simp add: WithIntent_def with_node_def wrap_def register_def store_def derived_def
        context_WithCancel_def context_WithDeadline_def Let_def nth_append list_update_append)

section \<open>The invariant is kept by every call\<close>

lemma all_consistent_store:
  assumes "all_consistent w" and "consistent n"
  shows "all_consistent (store w a n)"
proof -
  have "set ((nodes w)[a := n]) \<subseteq> insert n (set (nodes w))"
    by (rule set_update_subset_insert)
  with assms show ?thesis
    by (auto simp: all_consistent_def store_def)
qed

lemma all_consistent_nth:
  "all_consistent w \<Longrightarrow> a < length (nodes w) \<Longrightarrow> consistent (nodes w ! a)"
  by (simp add: all_consistent_def)

lemma Fulfill_consistent:
  assumes "Fulfill w c = Returns w'" and "all_consistent w"
  shows "all_consistent w'"
proof (cases c)
  case None
  with assms show ?thesis by (simp add: Fulfill_def with_node_def)
next
  case (Some a)
  show ?thesis
  proof (cases "a < length (nodes w) \<and> state (nodes w ! a) = ''active''")
    case True
    with assms Some have w': "w' = store w a ((nodes w ! a)\<lparr>state := ''done'', doneCh := True\<rparr>)"
      and "err (nodes w ! a) = None"
      using all_consistent_nth [of w a]
      by (auto simp: Fulfill_def with_node_def consistent_def split: if_splits)
    then have "consistent ((nodes w ! a)\<lparr>state := ''done'', doneCh := True\<rparr>)"
      by (simp add: consistent_def)
    with assms(2) show ?thesis unfolding w' by (rule all_consistent_store)
  next
    case False
    with assms Some show ?thesis
      by (auto simp: Fulfill_def with_node_def split: if_splits)
  qed
qed

lemma Abort_consistent:
  assumes "Abort w c e = Returns w'" and "all_consistent w"
  shows "all_consistent w'"
proof (cases c)
  case None
  with assms show ?thesis by (simp add: Abort_def with_node_def)
next
  case (Some a)
  show ?thesis
  proof (cases "a < length (nodes w) \<and> state (nodes w ! a) = ''active''")
    case True
    with assms Some
    have w': "w' = store w a ((nodes w ! a)\<lparr>state := ''aborted'', err := e, doneCh := True\<rparr>)"
      by (auto simp: Abort_def with_node_def split: if_splits)
    have "consistent ((nodes w ! a)\<lparr>state := ''aborted'', err := e, doneCh := True\<rparr>)"
      by (simp add: consistent_def)
    with assms(2) show ?thesis unfolding w' by (rule all_consistent_store)
  next
    case False
    with assms Some show ?thesis
      by (auto simp: Abort_def with_node_def split: if_splits)
  qed
qed

lemma abortEach_consistent:
  assumes step: "\<And>w c w'. abortRecursive k w c r = Returns w' \<Longrightarrow> all_consistent w \<Longrightarrow> all_consistent w'"
  shows "abortEach k w cs r = Returns w' \<Longrightarrow> all_consistent w \<Longrightarrow> all_consistent w'"
proof (induction cs arbitrary: w)
  case Nil
  then show ?case by simp
next
  case (Cons c cs)
  then show ?case
    by (auto split: outcome.splits dest: step)
qed

lemma abortRecursive_consistent:
  "abortRecursive k w c r = Returns w' \<Longrightarrow> all_consistent w \<Longrightarrow> all_consistent w'"
proof (induction k arbitrary: w c w')
  case 0
  then show ?case by simp
next
  case (Suc k)
  from Suc.prems(1) obtain s w1 chs where
    w1: "(if s = ''active'' then Abort w c r else Returns w) = Returns w1"
    and each: "abortEach k w1 chs r = Returns w'"
    by (auto split: outcome.splits)
  from w1 Suc.prems(2) have "all_consistent w1"
    by (auto split: if_splits dest: Abort_consistent)
  with each show ?case
    by (rule abortEach_consistent [rotated]) (rule Suc.IH)
qed

lemma applyAdjust_consistent:
  assumes "applyAdjust w c fn = Returns w'" and "all_consistent w"
  shows "all_consistent w'"
proof (cases c)
  case None
  with assms show ?thesis by (simp add: applyAdjust_def with_node_def)
next
  case (Some a)
  have upd: "consistent (n\<lparr>intent := x\<rparr>) = consistent n" for n x
    by (simp add: consistent_def)
  have m: "all_consistent (v\<lparr>maps := x\<rparr>) = all_consistent v" for v x
    by (simp add: all_consistent_def)
  from assms Some show ?thesis
    by (auto simp: applyAdjust_def with_node_def m upd all_consistent_nth
          split: if_splits option.splits intro!: all_consistent_store)
qed

lemma adjustEach_consistent:
  assumes step: "\<And>w c w'. adjustRecursive k w c fn = Returns w' \<Longrightarrow> all_consistent w \<Longrightarrow> all_consistent w'"
  shows "adjustEach k w cs fn = Returns w' \<Longrightarrow> all_consistent w \<Longrightarrow> all_consistent w'"
proof (induction cs arbitrary: w)
  case Nil
  then show ?case by simp
next
  case (Cons c cs)
  then show ?case
    by (auto split: outcome.splits dest: step)
qed

lemma adjustRecursive_consistent:
  "adjustRecursive k w c fn = Returns w' \<Longrightarrow> all_consistent w \<Longrightarrow> all_consistent w'"
proof (induction k arbitrary: w c w')
  case 0
  then show ?case by simp
next
  case (Suc k)
  from Suc.prems(1) obtain w1 chs where
    w1: "applyAdjust w c fn = Returns w1"
    and each: "adjustEach k w1 chs fn = Returns w'"
    by (auto split: outcome.splits)
  from w1 Suc.prems(2) have "all_consistent w1"
    by (rule applyAdjust_consistent)
  with each show ?case
    by (rule adjustEach_consistent [rotated]) (rule Suc.IH)
qed

lemma wrap_consistent:
  assumes "wrap w nid base i cs = (w', a)" and "all_consistent w"
  shows "all_consistent w'"
  using assms
  by (auto simp: wrap_def register_def all_consistent_def consistent_def Let_def)

lemma WithIntent_consistent:
  assumes "WithIntent w nid p i cs = Returns (w', ch, fn)" and "all_consistent w"
  shows "all_consistent w'"
proof (cases p)
  case None
  with assms show ?thesis by (simp add: WithIntent_def with_node_def)
next
  case (Some pa)
  show ?thesis
  proof (cases "pa < length (nodes w)")
    case False
    with assms Some show ?thesis by (simp add: WithIntent_def with_node_def)
  next
    case True
    let ?p = "(nodes w ! pa)\<lparr>children := children (nodes w ! pa) @ [nid]\<rparr>"
    from assms(1) Some True
    have n: "nodes w' = (nodes w)[pa := ?p] @ [derived w nid pa i cs]"
      by (auto simp: WithIntent_Some)
    have "consistent (nodes w ! pa)"
      using assms(2) True by (rule all_consistent_nth)
    then have "consistent ?p" by (simp add: consistent_def)
    moreover have "consistent (derived w nid pa i cs)" by (simp add: consistent_def)
    moreover have "set ((nodes w)[pa := ?p]) \<subseteq> insert ?p (set (nodes w))"
      by (rule set_update_subset_insert)
    ultimately show ?thesis
      using assms(2) by (auto simp: all_consistent_def n)
  qed
qed

lemma Background_consistent:
  "all_consistent w \<Longrightarrow> all_consistent (fst (Background w nid))"
  by (auto simp: Background_def split: prod.splits dest: wrap_consistent)

lemma TODO_consistent:
  "all_consistent w \<Longrightarrow> all_consistent (fst (TODO w nid))"
  by (auto simp: TODO_def split: prod.splits dest: wrap_consistent)

lemma SendCancel_consistent:
  assumes "SendCancel fuel w c scope reason = Returns w'" and "all_consistent w"
  shows "all_consistent w'"
  using assms
  by (auto simp: SendCancel_def split: if_splits outcome.splits
        dest: Abort_consistent abortRecursive_consistent)

lemma SendAdjust_consistent:
  assumes "SendAdjust fuel w c scope fn = Returns w'" and "all_consistent w"
  shows "all_consistent w'"
  using assms
  by (auto simp: SendAdjust_def split: if_splits outcome.splits
        dest: applyAdjust_consistent adjustRecursive_consistent)

lemma step_consistent:
  assumes "step w x = Returns w'" and "all_consistent w"
  shows "all_consistent w'"
proof (cases x)
  case (Derive nid p i cs)
  with assms show ?thesis
    by (auto split: outcome.splits dest: WithIntent_consistent)
next
  case (Release k)
  with assms show ?thesis by (auto simp: cancel_def all_consistent_def)
next
  case (Tick t)
  with assms show ?thesis by (auto simp: clock_def all_consistent_def)
next
  case (NewBackground nid)
  with assms show ?thesis by (auto dest: Background_consistent)
next
  case (NewTODO nid)
  with assms show ?thesis by (auto dest: TODO_consistent)
next
  case (DoFulfill c)
  with assms show ?thesis by (auto dest: Fulfill_consistent)
next
  case (DoAbort c e)
  with assms show ?thesis by (auto dest: Abort_consistent)
next
  case (DoSendCancel fuel c scope reason)
  with assms show ?thesis by (auto dest: SendCancel_consistent)
next
  case (DoSendAdjust fuel c scope fn)
  with assms show ?thesis by (auto dest: SendAdjust_consistent)
qed

lemma run_consistent:
  "run w xs = Returns w' \<Longrightarrow> all_consistent w \<Longrightarrow> all_consistent w'"
proof (induction xs arbitrary: w)
  case Nil
  then show ?case by simp
next
  case (Cons x xs)
  then show ?case
    by (auto split: outcome.splits dest: step_consistent)
qed

section \<open>The example worlds, computed\<close>

lemma family_runs: "run init_world family = Returns family_world"
  by (simp add: family_world_def family_def exec)

lemma released_runs: "run init_world (family @ [Release 0, Tick 5]) = Returns released_world"
  by (simp add: released_world_def family_def exec)

lemma settled_runs:
  "run init_world (family @ [DoFulfill (Some 1), DoAbort (Some 2) (Some (Error ''boom''))])
     = Returns settled_world"
  by (simp add: settled_world_def family_def exec)

lemma init_consistent: "all_consistent init_world"
  by (simp add: all_consistent_def init_world_def)

text \<open>Every world the calls can reach from the empty one is consistent.\<close>

lemma reachable_consistent:
  assumes "run init_world xs = Returns w"
  shows "all_consistent w"
  using assms init_consistent by (rule run_consistent)

section \<open>C1: the underlying signal and the state\<close>

text \<open>
  C1, as stated, fails. In the family of nodes above the release handle of \<open>a\<close> is
  called and the clock reaches the deadline of \<open>c\<close>: the underlying signals of \<open>a\<close>
  (release handle), of \<open>b\<close> (cascade from \<open>a\<close>) and of \<open>c\<close> (deadline expiry) have fired,
  and the three nodes are still \<open>active\<close>, with their own channels open.
\<close>

theorem underlying_signal_fires_while_active:
  "run init_world (family @ [Release 0, Tick 5]) = Returns released_world
   \<and> Done released_world (Some 1) = Returns True
   \<and> State released_world (Some 1) = Returns ''active''
   \<and> DoneChan released_world (Some 1) = Returns False
   \<and> Done released_world (Some 2) = Returns True
   \<and> State released_world (Some 2) = Returns ''active''
   \<and> DoneChan released_world (Some 2) = Returns False
   \<and> Done released_world (Some 3) = Returns True
   \<and> State released_world (Some 3) = Returns ''active''
   \<and> DoneChan released_world (Some 3) = Returns False"
  by (simp add: released_world_def family_def exec)

text \<open>
  C1, amended. A release handle and the clock (and so the cascade and a deadline's
  expiry) leave the state, the error and the own channel \<open>DoneChan\<close> of every node as
  they were. What follows the state is the node's own channel: in a world reached by
  any calls from a world where every node is consistent, \<open>DoneChan\<close> of a node is closed
  exactly when its state is not \<open>active\<close>.
\<close>

theorem own_channel_follows_state:
  "State (cancel v k) c = State v c \<and> ErrState (cancel v k) c = ErrState v c
   \<and> DoneChan (cancel v k) c = DoneChan v c
   \<and> State (clock v t) c = State v c \<and> ErrState (clock v t) c = ErrState v c
   \<and> DoneChan (clock v t) c = DoneChan v c
   \<and> (all_consistent w \<and> run w xs = Returns w' \<and> DoneChan w' c = Returns closed
        \<longrightarrow> (\<exists>s. State w' c = Returns s \<and> (closed \<longleftrightarrow> s \<noteq> ''active'')))"
proof -
  have "\<exists>s. State w' c = Returns s \<and> (closed \<longleftrightarrow> s \<noteq> ''active'')"
    if "all_consistent w" "run w xs = Returns w'" "DoneChan w' c = Returns closed"
  proof -
    from that(1,2) have "all_consistent w'" by (rule run_consistent [rotated])
    moreover from that(3) obtain a where "c = Some a" "a < length (nodes w')" "doneCh (nodes w' ! a) = closed"
      by (cases c) (auto simp: DoneChan_def with_node_def split: if_splits)
    ultimately show ?thesis
      using all_consistent_nth [of w' a] by (auto simp: State_def with_node_def consistent_def)
  qed
  then show ?thesis
    by (simp add: State_def ErrState_def DoneChan_def with_node_cancel with_node_clock)
qed

theorem own_channel_follows_state_witness:
  "all_consistent init_world
   \<and> run init_world (family @ [DoFulfill (Some 1), DoAbort (Some 2) (Some (Error ''boom''))])
       = Returns settled_world
   \<and> DoneChan settled_world (Some 2) = Returns True
   \<and> (\<exists>s. State settled_world (Some 2) = Returns s \<and> s \<noteq> ''active'')
   \<and> State (cancel settled_world 0) (Some 2) = State settled_world (Some 2)"
proof -
  have d: "DoneChan settled_world (Some 2) = Returns True"
    by (simp add: settled_world_def family_def exec)
  have "State (cancel settled_world 0) (Some 2) = State settled_world (Some 2)
          \<and> (\<exists>s. State settled_world (Some 2) = Returns s \<and> (True \<longleftrightarrow> s \<noteq> ''active''))"
    using own_channel_follows_state [of settled_world 0 "Some 2" 5 init_world
      "family @ [DoFulfill (Some 1), DoAbort (Some 2) (Some (Error ''boom''))]" settled_world True]
      init_consistent settled_runs d
    by blast
  with init_consistent settled_runs d show ?thesis by simp
qed

section \<open>C2: deadlines clamp downward\<close>

lemma clampChild_Deadline:
  "Deadline (clampChild p c) =
     (if Deadline p \<noteq> 0 \<and> (Deadline c = 0 \<or> Deadline c > Deadline p) then Deadline p else Deadline c)"
  by (simp add: clampChild_def IsZero_def After_def)

lemma chain_deadline:
  assumes "pa < length (nodes w)"
      and "Deadline (cons (nodes w ! pa)) \<noteq> 0"
      and "Deadline (cons (nodes w ! pa)) \<le> D"
  shows "\<exists>w' chs. chain w (Some pa) reqs = Returns (w', chs)
           \<and> length chs = length reqs
           \<and> length (nodes w) \<le> length (nodes w')
           \<and> (\<forall>a < length (nodes w). cons (nodes w' ! a) = cons (nodes w ! a))
           \<and> (\<forall>c \<in> set chs. \<exists>a. c = Some a \<and> a < length (nodes w')
                  \<and> Deadline (cons (nodes w' ! a)) \<noteq> 0 \<and> Deadline (cons (nodes w' ! a)) \<le> D)"
  using assms
proof (induction reqs arbitrary: w pa)
  case Nil
  then show ?case by simp
next
  case (Cons req rest)
  obtain nid i cs where req: "req = (nid, i, cs)" by (cases req)
  let ?a = "length (nodes w)"
  let ?w1 = "w\<lparr>nodes := (nodes w)[pa := (nodes w ! pa)\<lparr>children := children (nodes w ! pa) @ [nid]\<rparr>]
                              @ [derived w nid pa i cs],
                      reg := (reg w)(nid \<mapsto> length (nodes w)),
                      nextCancel := Suc (nextCancel w)\<rparr>"
  have W: "WithIntent w nid (Some pa) i cs = Returns (?w1, Some ?a, nextCancel w)"
    using Cons.prems(1) by (rule WithIntent_Some)
  have l1: "length (nodes ?w1) = Suc ?a" by simp
  have old: "cons (nodes ?w1 ! a) = cons (nodes w ! a)" if "a < ?a" for a
    using that by (cases "a = pa") (simp_all add: nth_append)
  have new: "cons (nodes ?w1 ! ?a) = clampChild (cons (nodes w ! pa)) cs"
    by (simp add: nth_append)
  have d1: "Deadline (cons (nodes ?w1 ! ?a)) \<noteq> 0" "Deadline (cons (nodes ?w1 ! ?a)) \<le> D"
    using Cons.prems(2,3) unfolding new clampChild_Deadline by auto
  have "?a < length (nodes ?w1)" by simp
  from Cons.IH [OF this d1] obtain w' chs where
    c: "chain ?w1 (Some ?a) rest = Returns (w', chs)"
    and len: "length chs = length rest"
    and grow: "length (nodes ?w1) \<le> length (nodes w')"
    and frame: "\<forall>a < length (nodes ?w1). cons (nodes w' ! a) = cons (nodes ?w1 ! a)"
    and below: "\<forall>c \<in> set chs. \<exists>a. c = Some a \<and> a < length (nodes w')
                  \<and> Deadline (cons (nodes w' ! a)) \<noteq> 0 \<and> Deadline (cons (nodes w' ! a)) \<le> D"
    by blast
  have 1: "chain w (Some pa) (req # rest) = Returns (w', Some ?a # chs)"
    by (simp add: req W c)
  have 2: "length (nodes w) \<le> length (nodes w')"
    using grow l1 by simp
  have 3: "\<forall>a < length (nodes w). cons (nodes w' ! a) = cons (nodes w ! a)"
    using frame old l1 by (metis less_Suc_eq)
  have 4: "?a < length (nodes w') \<and> Deadline (cons (nodes w' ! ?a)) \<noteq> 0
             \<and> Deadline (cons (nodes w' ! ?a)) \<le> D"
    using frame d1 grow l1 by (metis Suc_le_lessD lessI)
  show ?case
    using 1 2 3 4 below len by simp
qed

text \<open>
  C2. Locally: the child that \<open>WithIntent\<close> derives from a parent with constraints \<open>cp\<close>
  has the parent's deadline when the parent has one and the requested deadline is
  unset or strictly later, and the requested constraints unchanged otherwise.
  Along a chain: when the ancestor \<open>p\<close> has a deadline, every chain of derivations
  below it returns, and every node it derives has a deadline that is at most the
  deadline of \<open>p\<close>.
\<close>

theorem deadline_clamped_downward:
  assumes "ConstraintsOf w p = Returns cp"
  shows "(\<exists>w1 ch fn. WithIntent w nid p i c = Returns (w1, ch, fn)
            \<and> ConstraintsOf w1 ch =
                Returns (if \<not> IsZero (Deadline cp) \<and> (IsZero (Deadline c) \<or> After (Deadline c) (Deadline cp))
                         then c\<lparr>Deadline := Deadline cp\<rparr> else c))
       \<and> (\<not> IsZero (Deadline cp) \<longrightarrow>
            (\<exists>w' chs. chain w p reqs = Returns (w', chs) \<and> length chs = length reqs
               \<and> (\<forall>d \<in> set chs. \<exists>cd. ConstraintsOf w' d = Returns cd
                      \<and> \<not> IsZero (Deadline cd) \<and> Deadline cd \<le> Deadline cp)))"
proof -
  from assms obtain pa where p: "p = Some pa" "pa < length (nodes w)" "cons (nodes w ! pa) = cp"
    by (auto simp: ConstraintsOf_Returns)
  have local: "\<exists>w1 ch fn. WithIntent w nid p i c = Returns (w1, ch, fn)
            \<and> ConstraintsOf w1 ch =
                Returns (if \<not> IsZero (Deadline cp) \<and> (IsZero (Deadline c) \<or> After (Deadline c) (Deadline cp))
                         then c\<lparr>Deadline := Deadline cp\<rparr> else c)"
    using p by (simp add: WithIntent_Some ConstraintsOf_def with_node_def nth_append clampChild_def)
  have below: "\<exists>w' chs. chain w p reqs = Returns (w', chs) \<and> length chs = length reqs
               \<and> (\<forall>d \<in> set chs. \<exists>cd. ConstraintsOf w' d = Returns cd
                      \<and> \<not> IsZero (Deadline cd) \<and> Deadline cd \<le> Deadline cp)"
    if "\<not> IsZero (Deadline cp)"
  proof -
    from that p have "Deadline (cons (nodes w ! pa)) \<noteq> 0" "Deadline (cons (nodes w ! pa)) \<le> Deadline cp"
      by (simp_all add: IsZero_def)
    from chain_deadline [OF p(2) this, of reqs] show ?thesis
      unfolding p(1) ConstraintsOf_Returns IsZero_def by fastforce
  qed
  from local below show ?thesis by blast
qed

theorem deadline_clamped_downward_witness:
  "ConstraintsOf family_world (Some 3) = Returns \<lparr>Deadline = 5\<rparr>
   \<and> (\<exists>w1 ch fn. WithIntent family_world ''d'' (Some 3) \<lparr>Name = ''D'', Params = None\<rparr> \<lparr>Deadline = 9\<rparr>
                     = Returns (w1, ch, fn)
         \<and> ConstraintsOf w1 ch = Returns \<lparr>Deadline = 5\<rparr>)
   \<and> (\<exists>w' chs. chain family_world (Some 3)
                   [(''d'', \<lparr>Name = ''D'', Params = None\<rparr>, \<lparr>Deadline = 9\<rparr>),
                    (''e'', \<lparr>Name = ''E'', Params = None\<rparr>, \<lparr>Deadline = 0\<rparr>),
                    (''f'', \<lparr>Name = ''F'', Params = None\<rparr>, \<lparr>Deadline = 3\<rparr>)] = Returns (w', chs)
         \<and> length chs = Suc (Suc (Suc 0))
         \<and> (\<forall>d \<in> set chs. \<exists>cd. ConstraintsOf w' d = Returns cd
                \<and> \<not> IsZero (Deadline cd) \<and> Deadline cd \<le> 5))"
proof -
  have h: "ConstraintsOf family_world (Some 3) = Returns \<lparr>Deadline = 5\<rparr>"
    by (simp add: family_world_def family_def exec)
  from deadline_clamped_downward [OF h, of "''d''" "\<lparr>Name = ''D'', Params = None\<rparr>" "\<lparr>Deadline = 9\<rparr>"
      "[(''d'', \<lparr>Name = ''D'', Params = None\<rparr>, \<lparr>Deadline = 9\<rparr>),
        (''e'', \<lparr>Name = ''E'', Params = None\<rparr>, \<lparr>Deadline = 0\<rparr>),
        (''f'', \<lparr>Name = ''F'', Params = None\<rparr>, \<lparr>Deadline = 3\<rparr>)]"] h
  show ?thesis by (simp add: IsZero_def After_def)
qed

section \<open>C3: the terminal calls are first-wins\<close>

lemma call_terminal:
  assumes "call w c t = Returns w1"
  shows "\<exists>s. State w1 c = Returns s \<and> s \<noteq> ''active''"
  using assms
  by (cases t; cases c)
     (auto simp: Fulfill_def Abort_def State_def with_node_def store_def split: if_splits)

lemma call_noop:
  assumes "State w c = Returns s" and "s \<noteq> ''active''"
  shows "call w c t = Returns w"
  using assms
  by (cases t; cases c)
     (auto simp: Fulfill_def Abort_def State_def with_node_def split: if_splits)

lemma calls_noop:
  assumes "State w c = Returns s" and "s \<noteq> ''active''"
  shows "calls w c ts = Returns w"
  using assms by (induction ts) (simp_all add: call_noop)

lemma call_returns:
  assumes "State w c = Returns s" and "all_consistent w"
  shows "\<exists>w1. call w c t = Returns w1"
proof -
  from assms(1) obtain a where a: "c = Some a" "a < length (nodes w)"
    by (auto simp: State_Returns)
  from assms(2) a(2) have "consistent (nodes w ! a)" by (rule all_consistent_nth)
  with a show ?thesis
    by (cases t) (simp_all add: Fulfill_def Abort_def with_node_def consistent_def)
qed

text \<open>
  C3. When the first of a sequence of \<open>Fulfill\<close> and \<open>Abort\<close> calls on a node has
  returned, every further such call returns too, and the state and the error of the
  node after the whole sequence are the ones right after the first call.
  The first call does return on every node of a world whose nodes are consistent.
\<close>

theorem terminal_first_wins:
  "(call w c t = Returns w1 \<longrightarrow>
      (\<exists>w2. calls w c (t # ts) = Returns w2
         \<and> State w2 c = State w1 c \<and> ErrState w2 c = ErrState w1 c))
   \<and> (State w c = Returns s \<and> all_consistent w \<longrightarrow> (\<exists>w1. call w c t = Returns w1))"
proof -
  have "\<exists>w2. calls w c (t # ts) = Returns w2
          \<and> State w2 c = State w1 c \<and> ErrState w2 c = ErrState w1 c"
    if first: "call w c t = Returns w1"
  proof -
    from call_terminal [OF first] obtain s' where "State w1 c = Returns s'" "s' \<noteq> ''active''"
      by blast
    then have "calls w1 c ts = Returns w1" by (rule calls_noop)
    with first show ?thesis by simp
  qed
  then show ?thesis
    using call_returns [of w c s t] by blast
qed

theorem terminal_first_wins_witness:
  "State tree1 (Some 0) = Returns ''active'' \<and> all_consistent tree1
   \<and> Fulfill tree1 (Some 0) = Returns (final (Fulfill tree1 (Some 0)))
   \<and> (\<exists>w2. calls tree1 (Some 0) [CallFulfill, CallAbort (Some (Error ''boom'')), CallFulfill] = Returns w2
         \<and> State w2 (Some 0) = Returns ''done'' \<and> ErrState w2 (Some 0) = Returns None)"
proof -
  let ?w1 = "final (Fulfill tree1 (Some 0))"
  have a: "State tree1 (Some 0) = Returns ''active''"
    by (simp add: tree1_def exec)
  have k: "all_consistent tree1"
    by (simp add: all_consistent_def consistent_def tree1_def exec)
  have h: "call tree1 (Some 0) CallFulfill = Returns ?w1"
    by (simp add: tree1_def exec)
  have s: "State ?w1 (Some 0) = Returns ''done''" "ErrState ?w1 (Some 0) = Returns None"
    by (simp_all add: tree1_def exec)
  from terminal_first_wins [of tree1 "Some 0" CallFulfill ?w1
      "[CallAbort (Some (Error ''boom'')), CallFulfill]" "''active''"] a k h s
  show ?thesis by simp
qed

section \<open>C4 and C6: subtree scope on a three-level tree\<close>

text \<open>
  C4. Let \<open>root\<close> be an active node, \<open>A\<close> a node derived from \<open>root\<close> and \<open>B\<close> a node derived
  from \<open>A\<close>. Then \<open>A.SendCancel(ScopeSubtree, reason)\<close> returns (two levels of recursion
  are enough), leaves \<open>root\<close> active, and leaves \<open>A\<close> and \<open>B\<close> aborted with \<open>reason\<close> as
  their error and with their completion channels closed.
\<close>

theorem subtree_cancel_three_levels:
  assumes root: "State w1 root = Returns ''active''"
      and A: "WithIntent w1 ida root iA csA = Returns (w2, A, fnA)"
      and B: "WithIntent w2 idb A iB csB = Returns (w3, B, fnB)"
  shows "\<exists>w4. SendCancel (Suc (Suc fuel)) w3 A ScopeSubtree reason = Returns w4
           \<and> State w4 root = Returns ''active''
           \<and> State w4 A = Returns ''aborted'' \<and> ErrState w4 A = Returns reason
           \<and> DoneChan w4 A = Returns True
           \<and> State w4 B = Returns ''aborted'' \<and> ErrState w4 B = Returns reason
           \<and> DoneChan w4 B = Returns True"
proof -
  from root obtain r where r: "root = Some r" "r < length (nodes w1)" "state (nodes w1 ! r) = ''active''"
    by (auto simp: State_Returns)
  let ?a = "length (nodes w1)"
  from A r have w2: "w2 = w1\<lparr>nodes := (nodes w1)[r := (nodes w1 ! r)\<lparr>children := children (nodes w1 ! r) @ [ida]\<rparr>]
                              @ [derived w1 ida r iA csA],
                      reg := (reg w1)(ida \<mapsto> ?a),
                      nextCancel := Suc (nextCancel w1)\<rparr>" and a: "A = Some ?a"
    by (auto simp: WithIntent_Some)
  have l2: "length (nodes w2) = Suc ?a" by (simp add: w2)
  then have la: "?a < length (nodes w2)" by simp
  from B a have w3: "w3 = w2\<lparr>nodes := (nodes w2)[?a := (nodes w2 ! ?a)\<lparr>children := children (nodes w2 ! ?a) @ [idb]\<rparr>]
                              @ [derived w2 idb ?a iB csB],
                      reg := (reg w2)(idb \<mapsto> Suc ?a),
                      nextCancel := Suc (nextCancel w2)\<rparr>" and b: "B = Some (Suc ?a)"
    using WithIntent_Some [OF la, of idb iB csB] l2 by auto
  have n3: "nodes w3 = (nodes w1)[r := (nodes w1 ! r)\<lparr>children := children (nodes w1 ! r) @ [ida]\<rparr>]
                 @ [(derived w1 ida r iA csA)\<lparr>children := [idb]\<rparr>, derived w2 idb ?a iB csB]"
    by (simp add: w3 w2 nth_append list_update_append)
  have g3: "reg w3 idb = Some (Suc ?a)"
    by (simp add: w3)
  show ?thesis
    using r
    by (simp add: SendCancel_def ScopeSubtree_def ScopeNode_def a b n3 g3
          State_def ErrState_def DoneChan_def Abort_def Children_def get_def
          with_node_def store_def nth_append list_update_append)
qed

theorem subtree_cancel_three_levels_witness:
  "State tree1 (Some 0) = Returns ''active''
   \<and> WithIntent tree1 ''a'' (Some 0) \<lparr>Name = ''A'', Params = Some 0\<rparr> \<lparr>Deadline = 0\<rparr>
       = Returns (tree2, Some 1, 0)
   \<and> WithIntent tree2 ''b'' (Some 1) \<lparr>Name = ''B'', Params = None\<rparr> \<lparr>Deadline = 0\<rparr>
       = Returns (tree3, Some 2, 1)
   \<and> (\<exists>w4. SendCancel (Suc (Suc 0)) tree3 (Some 1) ScopeSubtree (Some (Error ''boom'')) = Returns w4
         \<and> State w4 (Some 0) = Returns ''active''
         \<and> State w4 (Some 1) = Returns ''aborted''
         \<and> ErrState w4 (Some 1) = Returns (Some (Error ''boom''))
         \<and> DoneChan w4 (Some 1) = Returns True
         \<and> State w4 (Some 2) = Returns ''aborted''
         \<and> ErrState w4 (Some 2) = Returns (Some (Error ''boom''))
         \<and> DoneChan w4 (Some 2) = Returns True)"
proof -
  have r: "State tree1 (Some 0) = Returns ''active''"
    by (simp add: tree1_def exec)
  have a: "WithIntent tree1 ''a'' (Some 0) \<lparr>Name = ''A'', Params = Some 0\<rparr> \<lparr>Deadline = 0\<rparr>
             = Returns (tree2, Some 1, 0)"
    by (simp add: tree2_def tree1_def exec)
  have b: "WithIntent tree2 ''b'' (Some 1) \<lparr>Name = ''B'', Params = None\<rparr> \<lparr>Deadline = 0\<rparr>
             = Returns (tree3, Some 2, 1)"
    by (simp add: tree3_def tree2_def tree1_def exec)
  from subtree_cancel_three_levels [OF r a b, of 0 "Some (Error ''boom'')"] r a b
  show ?thesis by simp
qed

text \<open>
  C6, as stated, fails for a root that shares its map. The root \<open>r\<close> has map 0 and \<open>a\<close>
  was derived with that same map; \<open>a\<close> and \<open>b\<close> start without any entry. After
  \<open>a.SendAdjust(ScopeSubtree, func(p) { p["k"] = "v" })\<close> the root reads \<open>"v"\<close> at \<open>"k"\<close> too.
\<close>

theorem subtree_adjust_reaches_shared_root:
  "run init_world
       [NewBackground ''r'',
        DoSendAdjust 0 (Some 0) ScopeNode (Some id),
        Derive ''a'' (Some 0) \<lparr>Name = ''A'', Params = Some 0\<rparr> \<lparr>Deadline = 0\<rparr>,
        Derive ''b'' (Some 1) \<lparr>Name = ''B'', Params = None\<rparr> \<lparr>Deadline = 0\<rparr>]
     = Returns shared_world
   \<and> empty_params shared_world (Some 0)
   \<and> IntentOf shared_world (Some 0) = Returns \<lparr>Name = [], Params = Some 0\<rparr>
   \<and> IntentOf shared_world (Some 1) = Returns \<lparr>Name = ''A'', Params = Some 0\<rparr>
   \<and> IntentOf shared_world (Some 2) = Returns \<lparr>Name = ''B'', Params = None\<rparr>
   \<and> param shared_world (Some 0) ''k'' = Returns None
   \<and> SendAdjust (Suc (Suc 0)) shared_world (Some 1) ScopeSubtree (set_key ''k'' (VString ''v''))
       = Returns (final (SendAdjust (Suc (Suc 0)) shared_world (Some 1) ScopeSubtree
                           (set_key ''k'' (VString ''v''))))
   \<and> param (final (SendAdjust (Suc (Suc 0)) shared_world (Some 1) ScopeSubtree
                      (set_key ''k'' (VString ''v'')))) (Some 0) ''k''
       = Returns (Some (VString ''v''))"
  by (simp add: shared_world_def empty_params_def SendAdjust_def ScopeNode_def ScopeSubtree_def
        applyAdjust_def set_key_def param_def map_index_def exec)

text \<open>
  C6, amended. Let \<open>root\<close> be any node, \<open>A\<close> a node derived from \<open>root\<close> and \<open>B\<close> a node
  derived from \<open>A\<close>, both with empty params (a nil map or a map without entries). Then
  \<open>A.SendAdjust(ScopeSubtree, func(p) { p[k] = v })\<close> returns, after it both \<open>A\<close> and \<open>B\<close>
  read \<open>v\<close> at \<open>k\<close>, and the intent of \<open>root\<close> (its name and which map it has) is what it
  was. The entries of the root's params are what they were as well, when the root's
  map is not the very map \<open>A\<close> or \<open>B\<close> was derived with.
\<close>

theorem subtree_adjust_three_levels:
  assumes root: "IntentOf w1 root = Returns ir"
      and A: "WithIntent w1 ida root iA csA = Returns (w2, A, fnA)"
      and B: "WithIntent w2 idb A iB csB = Returns (w3, B, fnB)"
      and eA: "empty_params w1 (Params iA)"
      and eB: "empty_params w1 (Params iB)"
  shows "\<exists>w4. SendAdjust (Suc (Suc fuel)) w3 A ScopeSubtree (set_key k v) = Returns w4
           \<and> param w4 A k = Returns (Some v)
           \<and> param w4 B k = Returns (Some v)
           \<and> IntentOf w3 root = Returns ir
           \<and> IntentOf w4 root = Returns ir
           \<and> (own_map w1 (Params ir) (Params iA) (Params iB)
                \<longrightarrow> (\<forall>key. param w4 root key = param w1 root key))"
proof -
  from root obtain r where r: "root = Some r" "r < length (nodes w1)" "intent (nodes w1 ! r) = ir"
    by (cases root) (auto simp: IntentOf_def with_node_def split: if_splits)
  let ?a = "length (nodes w1)"
  from A r have w2: "w2 = w1\<lparr>nodes := (nodes w1)[r := (nodes w1 ! r)\<lparr>children := children (nodes w1 ! r) @ [ida]\<rparr>]
                              @ [derived w1 ida r iA csA],
                      reg := (reg w1)(ida \<mapsto> ?a),
                      nextCancel := Suc (nextCancel w1)\<rparr>" and a: "A = Some ?a"
    by (auto simp: WithIntent_Some)
  have l2: "length (nodes w2) = Suc ?a" by (simp add: w2)
  then have la: "?a < length (nodes w2)" by simp
  from B a have w3: "w3 = w2\<lparr>nodes := (nodes w2)[?a := (nodes w2 ! ?a)\<lparr>children := children (nodes w2 ! ?a) @ [idb]\<rparr>]
                              @ [derived w2 idb ?a iB csB],
                      reg := (reg w2)(idb \<mapsto> Suc ?a),
                      nextCancel := Suc (nextCancel w2)\<rparr>" and b: "B = Some (Suc ?a)"
    using WithIntent_Some [OF la, of idb iB csB] l2 by auto
  have n3: "nodes w3 = (nodes w1)[r := (nodes w1 ! r)\<lparr>children := children (nodes w1 ! r) @ [ida]\<rparr>]
                 @ [(derived w1 ida r iA csA)\<lparr>children := [idb]\<rparr>, derived w2 idb ?a iB csB]"
    by (simp add: w3 w2 nth_append list_update_append)
  have g3: "reg w3 idb = Some (Suc ?a)"
    by (simp add: w3)
  have m3: "maps w3 = maps w1"
    by (simp add: w3 w2)
  show ?thesis
    using eA eB r
    by (cases "Params iA"; cases "Params iB"; cases "Params ir")
       (simp_all add: SendAdjust_def ScopeSubtree_def ScopeNode_def a b n3 g3 m3 set_key_def
          empty_params_def own_map_def param_def IntentOf_def map_index_def applyAdjust_def
          Children_def get_def with_node_def store_def nth_append list_update_append
          nth_list_update)
qed

theorem subtree_adjust_three_levels_witness:
  "IntentOf adjusted_root (Some 0) = Returns \<lparr>Name = [], Params = Some 0\<rparr>
   \<and> WithIntent adjusted_root ''a'' (Some 0) \<lparr>Name = ''A'', Params = Some 1\<rparr> \<lparr>Deadline = 0\<rparr>
       = Returns (separate2, Some 1, 0)
   \<and> WithIntent separate2 ''b'' (Some 1) \<lparr>Name = ''B'', Params = None\<rparr> \<lparr>Deadline = 0\<rparr>
       = Returns (separate3, Some 2, 1)
   \<and> empty_params adjusted_root (Some 1)
   \<and> empty_params adjusted_root None
   \<and> own_map adjusted_root (Some 0) (Some 1) None
   \<and> (\<exists>w4. SendAdjust (Suc (Suc 0)) separate3 (Some 1) ScopeSubtree (set_key ''k'' (VString ''v'')) = Returns w4
         \<and> param w4 (Some 1) ''k'' = Returns (Some (VString ''v''))
         \<and> param w4 (Some 2) ''k'' = Returns (Some (VString ''v''))
         \<and> IntentOf w4 (Some 0) = Returns \<lparr>Name = [], Params = Some 0\<rparr>
         \<and> param w4 (Some 0) ''k'' = Returns None)"
proof -
  have ev: "SendAdjust 0 w c ScopeNode fn = applyAdjust w c fn" for w c fn
    by (simp add: SendAdjust_def)
  have r: "IntentOf adjusted_root (Some 0) = Returns \<lparr>Name = [], Params = Some 0\<rparr>"
    by (simp add: adjusted_root_def ev applyAdjust_def exec)
  have a: "WithIntent adjusted_root ''a'' (Some 0) \<lparr>Name = ''A'', Params = Some 1\<rparr> \<lparr>Deadline = 0\<rparr>
             = Returns (separate2, Some 1, 0)"
    by (simp add: separate2_def adjusted_root_def ev applyAdjust_def exec)
  have b: "WithIntent separate2 ''b'' (Some 1) \<lparr>Name = ''B'', Params = None\<rparr> \<lparr>Deadline = 0\<rparr>
             = Returns (separate3, Some 2, 1)"
    by (simp add: separate3_def separate2_def adjusted_root_def ev applyAdjust_def exec)
  have ea: "empty_params adjusted_root (Params \<lparr>Name = ''A'', Params = Some 1\<rparr>)"
    and eb: "empty_params adjusted_root (Params \<lparr>Name = ''B'', Params = None\<rparr>)"
    by (simp_all add: empty_params_def adjusted_root_def ev applyAdjust_def exec)
  have o: "own_map adjusted_root (Some 0) (Some 1) None"
    by (simp add: own_map_def adjusted_root_def ev applyAdjust_def exec)
  have p: "param adjusted_root (Some 0) ''k'' = Returns None"
    by (simp add: param_def map_index_def adjusted_root_def ev applyAdjust_def exec)
  from subtree_adjust_three_levels [OF r a b ea eb, of 0 "''k''" "VString ''v''"] r a b ea eb o p
  show ?thesis by auto
qed

section \<open>C5 and C9: WaitAll\<close>

lemma WaitAll_passes:
  assumes "ctxDone cc \<longrightarrow> (\<forall>i. pick i)"
      and "\<forall>p \<in> set pre. DoneChan w p = Returns True \<and> ErrState w p = Returns None"
  shows "WaitAll w (Some cc) pick (pre @ rest) = WaitAll w (Some cc) (\<lambda>i. pick (length pre + i)) rest"
  using assms
proof (induction pre arbitrary: pick)
  case Nil
  then show ?case by simp
next
  case (Cons p pre)
  from Cons.prems(1) have step: "ctxDone cc \<longrightarrow> (\<forall>i. pick (Suc i))" by simp
  from Cons.prems(2) have rest: "\<forall>p \<in> set pre. DoneChan w p = Returns True \<and> ErrState w p = Returns None"
    by simp
  from Cons.prems have "WaitAll w (Some cc) pick ((p # pre) @ rest)
      = WaitAll w (Some cc) (\<lambda>i. pick (Suc i)) (pre @ rest)"
    by auto
  also have "\<dots> = WaitAll w (Some cc) (\<lambda>i. pick (Suc (length pre + i))) rest"
    using Cons.IH [OF step rest] by simp
  finally show ?case by simp
qed

text \<open>
  C5, as stated, fails when the caller's own signal has fired as well: both cases of
  the \<open>select\<close> are ready, and when it takes the caller's case \<open>WaitAll\<close> returns the
  caller's error. Node \<open>b\<close> has completed with the error \<open>boom\<close> and \<open>WaitAll\<close> over it
  returns \<open>context canceled\<close>; node \<open>a\<close> has completed without an error and \<open>WaitAll\<close>
  over it returns \<open>context canceled\<close>, not nil.
\<close>

theorem WaitAll_returns_callers_error:
  "run init_world (family @ [DoFulfill (Some 1), DoAbort (Some 2) (Some (Error ''boom''))])
     = Returns settled_world
   \<and> DoneChan settled_world (Some 2) = Returns True
   \<and> ErrState settled_world (Some 2) = Returns (Some (Error ''boom''))
   \<and> WaitAll settled_world (Some fired) ctx_first [Some 2]
       = WaitReturns (Some (Error ''context canceled''))
   \<and> DoneChan settled_world (Some 1) = Returns True
   \<and> ErrState settled_world (Some 1) = Returns None
   \<and> WaitAll settled_world (Some fired) ctx_first [Some 1]
       = WaitReturns (Some (Error ''context canceled''))"
  by (simp add: settled_world_def family_def fired_def ctx_first_def exec)

text \<open>
  C5, amended. Let every \<open>select\<close> take the node's case when that case is ready, as it
  must when the caller's own signal has not fired. Then \<open>WaitAll\<close> goes through the
  nodes in list order. Past nodes \<open>pre\<close> that have completed without an error:
  if the next node \<open>n\<close> has completed with the error \<open>e\<close>, the call returns exactly \<open>e\<close>,
  whatever the later nodes \<open>post\<close> are;
  if \<open>n\<close> has not completed and the caller's signal has not fired, the call is blocked
  on \<open>n\<close>;
  and when there is no next node, the call returns nil.
\<close>

theorem WaitAll_in_list_order:
  assumes "ctxDone cc \<longrightarrow> (\<forall>i. pick i)"
      and "\<forall>p \<in> set pre. DoneChan w p = Returns True \<and> ErrState w p = Returns None"
  shows "(DoneChan w n = Returns True \<and> ErrState w n = Returns (Some e)
            \<longrightarrow> WaitAll w (Some cc) pick (pre @ n # post) = WaitReturns (Some e))
       \<and> (\<not> ctxDone cc \<and> DoneChan w n = Returns False
            \<longrightarrow> WaitAll w (Some cc) pick (pre @ n # post) = WaitBlocks (n # post))
       \<and> WaitAll w (Some cc) pick pre = WaitReturns None"
proof -
  have "WaitAll w (Some cc) pick (pre @ []) = WaitReturns None"
    using WaitAll_passes [OF assms, of "[]"] by simp
  then show ?thesis
    using assms(1) WaitAll_passes [OF assms, of "n # post"] by auto
qed

theorem WaitAll_in_list_order_witness:
  "ctxDone fired \<and> (\<forall>i. node_first i)
   \<and> DoneChan settled_world (Some 1) = Returns True \<and> ErrState settled_world (Some 1) = Returns None
   \<and> DoneChan settled_world (Some 2) = Returns True
   \<and> ErrState settled_world (Some 2) = Returns (Some (Error ''boom''))
   \<and> WaitAll settled_world (Some fired) node_first [Some 1, Some 2, Some 0]
       = WaitReturns (Some (Error ''boom''))
   \<and> WaitAll settled_world (Some fired) node_first [Some 1] = WaitReturns None
   \<and> \<not> ctxDone idle
   \<and> DoneChan settled_world (Some 0) = Returns False
   \<and> WaitAll settled_world (Some idle) ctx_first [Some 1, Some 0, Some 2]
       = WaitBlocks [Some 0, Some 2]"
proof -
  have f: "ctxDone fired" "\<forall>i. node_first i"
    by (simp_all add: fired_def node_first_def)
  then have c: "ctxDone fired \<longrightarrow> (\<forall>i. node_first i)" by simp
  have i: "\<not> ctxDone idle" by (simp add: idle_def)
  then have c': "ctxDone idle \<longrightarrow> (\<forall>i. ctx_first i)" by simp
  have p: "\<forall>p \<in> set [Some 1]. DoneChan settled_world p = Returns True \<and> ErrState settled_world p = Returns None"
    by (simp add: settled_world_def family_def exec)
  have n: "DoneChan settled_world (Some 2) = Returns True"
    "ErrState settled_world (Some 2) = Returns (Some (Error ''boom''))"
    "DoneChan settled_world (Some 0) = Returns False"
    by (simp_all add: settled_world_def family_def exec)
  from WaitAll_in_list_order [OF c p, of "Some 2" "Error ''boom''" "[Some 0]"]
    WaitAll_in_list_order [OF c' p, of "Some 0" "Error ''boom''" "[Some 2]"] f i p n
  show ?thesis by simp
qed

text \<open>
  C9, as stated, fails when the caller's own signal has fired as well: node \<open>a\<close> is
  active, \<open>a.Abort(nil)\<close> sets its state to \<open>aborted\<close> with a nil error, and \<open>WaitAll\<close> over
  it returns \<open>context canceled\<close> when the \<open>select\<close> takes the caller's case.
\<close>

theorem WaitAll_after_nil_abort_not_nil:
  "State family_world (Some 1) = Returns ''active''
   \<and> Abort family_world (Some 1) None = Returns nil_aborted_world
   \<and> State nil_aborted_world (Some 1) = Returns ''aborted''
   \<and> ErrState nil_aborted_world (Some 1) = Returns None
   \<and> WaitAll nil_aborted_world (Some fired) ctx_first [Some 1]
       = WaitReturns (Some (Error ''context canceled''))"
  by (simp add: nil_aborted_world_def family_world_def family_def fired_def ctx_first_def exec)

text \<open>
  C9, amended. On an active node of a consistent world (every reachable world is one)
  \<open>Abort(nil)\<close> returns, sets the state to \<open>aborted\<close> and leaves \<open>ErrState()\<close> nil.
  \<open>WaitAll\<close> over the node then returns nil when its \<open>select\<close> takes the node's case, as
  it must when the caller's own signal has not fired. \<open>Fulfill\<close> on the same node gives
  the same two answers: nil from \<open>ErrState()\<close> and nil from \<open>WaitAll\<close>.
\<close>

theorem abort_nil_like_fulfill:
  assumes "State w c = Returns ''active''"
      and "all_consistent w"
      and "ctxDone cc \<longrightarrow> pick 0"
  shows "\<exists>wa wf. Abort w c None = Returns wa
           \<and> State wa c = Returns ''aborted''
           \<and> ErrState wa c = Returns None
           \<and> WaitAll wa (Some cc) pick [c] = WaitReturns None
           \<and> Fulfill w c = Returns wf
           \<and> State wf c = Returns ''done''
           \<and> ErrState wf c = Returns None
           \<and> WaitAll wf (Some cc) pick [c] = WaitReturns None"
proof -
  from assms(1) obtain a where a: "c = Some a" "a < length (nodes w)" "state (nodes w ! a) = ''active''"
    by (auto simp: State_Returns)
  from assms(2) a(2) have "consistent (nodes w ! a)" by (rule all_consistent_nth)
  with a assms(3) show ?thesis
    by (auto simp: consistent_def Abort_def Fulfill_def State_def ErrState_def DoneChan_def
          with_node_def store_def)
qed

theorem abort_nil_like_fulfill_witness:
  "State family_world (Some 1) = Returns ''active''
   \<and> all_consistent family_world
   \<and> ctxDone fired \<and> node_first 0
   \<and> (\<exists>wa wf. Abort family_world (Some 1) None = Returns wa
         \<and> State wa (Some 1) = Returns ''aborted''
         \<and> ErrState wa (Some 1) = Returns None
         \<and> WaitAll wa (Some fired) node_first [Some 1] = WaitReturns None
         \<and> Fulfill family_world (Some 1) = Returns wf
         \<and> State wf (Some 1) = Returns ''done''
         \<and> ErrState wf (Some 1) = Returns None
         \<and> WaitAll wf (Some fired) node_first [Some 1] = WaitReturns None)"
proof -
  have s: "State family_world (Some 1) = Returns ''active''"
    by (simp add: family_world_def family_def exec)
  have k: "all_consistent family_world"
    using family_runs by (rule reachable_consistent)
  have f: "ctxDone fired" "node_first 0"
    by (simp_all add: fired_def node_first_def)
  then have c: "ctxDone fired \<longrightarrow> node_first 0" by simp
  from abort_nil_like_fulfill [of family_world "Some 1" fired node_first, OF s k c] s k f
  show ?thesis by simp
qed

section \<open>C7: the read-only view\<close>

text \<open>
  C7 fails on the code. The node \<open>a\<close> was derived with a map literal for its params.
  \<open>Params()\<close> of its view returns that very map (map 0), not a copy; the assignment
  \<open>view.Params()["k"] = "v"\<close> then shows through the node itself: \<open>a.Intent().Params["k"]\<close>
  was absent before and is \<open>"v"\<close> after. The state and the error of the node are as before.
\<close>

theorem view_params_is_the_nodes_map:
  "run (fst (new_map init_world))
       [NewBackground ''r'', Derive ''a'' (Some 0) \<lparr>Name = ''A'', Params = Some 0\<rparr> \<lparr>Deadline = 0\<rparr>]
     = Returns viewed_world
   \<and> policyNode_Params viewed_world (PolicyNode (Some 1)) = Returns (Some 0)
   \<and> param viewed_world (Some 1) ''k'' = Returns None
   \<and> map_assign viewed_world (Some 0) ''k'' (VString ''v'')
       = Returns (final (map_assign viewed_world (Some 0) ''k'' (VString ''v'')))
   \<and> param (final (map_assign viewed_world (Some 0) ''k'' (VString ''v''))) (Some 1) ''k''
       = Returns (Some (VString ''v''))
   \<and> State (final (map_assign viewed_world (Some 0) ''k'' (VString ''v''))) (Some 1) = Returns ''active''
   \<and> ErrState (final (map_assign viewed_world (Some 0) ''k'' (VString ''v''))) (Some 1) = Returns None"
  by (simp add: viewed_world_def map_assign_def param_def map_index_def exec)

section \<open>C8 and C10: nil parent, unknown scope\<close>

text \<open>
  C8. Derivation with a nil parent fails fast: \<open>WithIntent\<close> panics on its first
  statement (\<open>parent.cons\<close>), whatever the intent and the constraints, and so returns
  no node at all.
\<close>

theorem WithIntent_nil_parent_panics:
  "WithIntent w nid None i cs = Panics NilPointerDereference"
  by (simp add: WithIntent_def with_node_def)

text \<open>
  C10. For a scope value other than \<open>ScopeNode\<close>, \<open>ScopeSubtree\<close> and \<open>ScopeRoot\<close>,
  \<open>SendCancel\<close> and \<open>SendAdjust\<close> fall through their \<open>switch\<close> and return with the
  whole world as it was: no node's state, error, params or children list changes.
\<close>

theorem unknown_scope_noop:
  assumes "scope \<noteq> ScopeNode" and "scope \<noteq> ScopeSubtree" and "scope \<noteq> ScopeRoot"
  shows "SendCancel fuel w c scope reason = Returns w \<and> SendAdjust fuel w c scope fn = Returns w"
  using assms by (simp add: SendCancel_def SendAdjust_def)

theorem unknown_scope_noop_witness:
  "SendCancel 0 init_world None 7 (Some (Error ''x'')) = Returns init_world
   \<and> SendAdjust 0 init_world None 7 (set_key ''k'' (VString ''v'')) = Returns init_world"
  using unknown_scope_noop [of 7 0 init_world None "Some (Error ''x'')" "set_key ''k'' (VString ''v'')"]
  by (simp add: ScopeNode_def ScopeSubtree_def ScopeRoot_def)

end
